theory Spec2Isabelle
  imports Complex_Main "HOL-Library.AList"
begin

section \<open>build\_picons: an incremental picon build\<close>

text \<open>
  A shallow embedding of \<^verbatim>\<open>src/build_picons.py\<close>. Conventions:
  \<^item> a \<^verbatim>\<open>pathlib.Path\<close> relative to a root is the list of its \<^verbatim>\<open>parts\<close>
    (POSIX flavour: \<^verbatim>\<open>str\<close> joins the parts with a slash, and a part may contain a
    backslash);
  \<^item> file contents are strings of bytes;
  \<^item> a JSON document is a value of the datatype \<open>json\<close> (numbers are integers; a
    Python \<^verbatim>\<open>dict\<close> is an association list in insertion order);
  \<^item> an image is its size in pixels and its mode, the pixel data is abstracted away;
  \<^item> what the program takes from libraries and from the machine (SHA-1, glob matching,
    the two rasterizers, the bitmap decoder, float arithmetic) is a field of the
    record \<open>env\<close>;
  \<^item> an exception that leaves a function is the \<open>Inl\<close> of a sum type.

  Outside the model: failures of the operating system other than those the code
  catches (a source file that cannot be read, a directory that cannot be made, a cache
  file that cannot be written), the limits of memory and of the float range, and an
  output directory that lies inside the input tree. The output prefix holds no path
  separator.
\<close>

subsection \<open>Exceptions\<close>

datatype error = SystemExit int | AttributeError | TypeError | ZeroDivisionError
  | ValueError | DecoderError

subsection \<open>Paths\<close>

type_synonym path = "string list"
type_synonym bytes = string

text \<open>\<^verbatim>\<open>str.lower\<close> on the ASCII letters.\<close>

definition lower_char :: "char \<Rightarrow> char" where
  "lower_char c =
     (case map_of (zip ''ABCDEFGHIJKLMNOPQRSTUVWXYZ'' ''abcdefghijklmnopqrstuvwxyz'') c of
        None \<Rightarrow> c | Some d \<Rightarrow> d)"

definition lower :: "string \<Rightarrow> string" where
  "lower s = map lower_char s"

text \<open>\<^verbatim>\<open>Path.name\<close>: the last part, the empty string when there is none.\<close>

definition name_of :: "path \<Rightarrow> string" where
  "name_of p = (if p = [] then [] else last p)"

text \<open>
  \<^verbatim>\<open>Path.suffix\<close>: with \<open>i\<close> the index of the last dot of the name, the name
  from \<open>i\<close> on when \<open>0 < i < len(name) - 1\<close>, the empty string otherwise.
\<close>

definition suffix_of_name :: "string \<Rightarrow> string" where
  "suffix_of_name n =
     (if CHR ''.'' \<in> set n then
        (let ext = rev (takeWhile (\<lambda>c. c \<noteq> CHR ''.'') (rev n));
             i = length n - length ext - 1
         in if 0 < i \<and> ext \<noteq> [] then CHR ''.'' # ext else [])
      else [])"

definition suffix :: "path \<Rightarrow> string" where
  "suffix p = suffix_of_name (name_of p)"

text \<open>\<^verbatim>\<open>Path.with_suffix\<close> on a path with a non-empty name.\<close>

definition with_suffix :: "path \<Rightarrow> string \<Rightarrow> path" where
  "with_suffix p sfx =
     (let n = name_of p;
          stem = take (length n - length (suffix_of_name n)) n
      in butlast p @ [stem @ sfx])"

text \<open>\<^verbatim>\<open>str(path)\<close>, and the replacement of every backslash by a slash.\<close>

fun join_parts :: "path \<Rightarrow> string" where
  "join_parts [] = []"
| "join_parts [x] = x"
| "join_parts (x # y # ys) = x @ CHR ''/'' # join_parts (y # ys)"

definition str_of_path :: "path \<Rightarrow> string" where
  "str_of_path p = (if p = [] then ''.'' else join_parts p)"

definition backslash :: char where
  "backslash = CHR 0x5C"

definition normalize_seps :: "string \<Rightarrow> string" where
  "normalize_seps s = map (\<lambda>c. if c = backslash then CHR ''/'' else c) s"

subsection \<open>Filtering\<close>

definition IMAGE_EXTS :: "string set" where
  "IMAGE_EXTS = {''.png'', ''.jpg'', ''.jpeg'', ''.webp'', ''.bmp'', ''.tiff'', ''.tif'', ''.svg''}"

definition top_level_dir_of :: "path \<Rightarrow> string option" where
  "top_level_dir_of rel = (if length rel = 0 then None else Some (rel ! 0))"

text \<open>
  \<^verbatim>\<open>matches_any_pattern\<close>. The first argument stands for
  \<^verbatim>\<open>lambda s, pat: Path(s).match(pat)\<close>, which returns a boolean or raises
  \<^verbatim>\<open>ValueError\<close> (\<open>None\<close>), as it does on a pattern with no component. The
  patterns are the set \<^verbatim>\<open>match_patterns\<close> in the order in which the loop iterates
  over it: the loop returns at the first match and raises at a pattern that raises
  before any match.
\<close>

fun match_loop :: "(string \<Rightarrow> string \<Rightarrow> bool option) \<Rightarrow> string \<Rightarrow> string list \<Rightarrow> error + bool" where
  "match_loop pmatch s [] = Inr False"
| "match_loop pmatch s (pat # pats) =
     (case pmatch s pat of
        None \<Rightarrow> Inl ValueError
      | Some True \<Rightarrow> Inr True
      | Some False \<Rightarrow> match_loop pmatch s pats)"

definition matches_any_pattern ::
    "(string \<Rightarrow> string \<Rightarrow> bool option) \<Rightarrow> path \<Rightarrow> string list \<Rightarrow> error + bool" where
  "matches_any_pattern pmatch p patterns =
     (let s = normalize_seps (str_of_path p) in match_loop pmatch s patterns)"

text \<open>
  The body of the enumeration loop of \<^verbatim>\<open>main\<close> up to the extension check: a file is
  kept (\<open>Inr True\<close>) when no \<^verbatim>\<open>continue\<close> is taken, dropped (\<open>Inr False\<close>) when
  one is, and the loop ends on the exception of the matcher when it raises.
\<close>

definition is_candidate ::
    "(string \<Rightarrow> string \<Rightarrow> bool option) \<Rightarrow> string set \<Rightarrow> string set \<Rightarrow> string list \<Rightarrow> path
       \<Rightarrow> error + bool" where
  "is_candidate pmatch only_set exclude_set match_patterns rel =
     (let ext = lower (suffix rel);
          top = top_level_dir_of rel
      in if (case top of
               None \<Rightarrow> only_set \<noteq> {} \<and> match_patterns = []
             | Some t \<Rightarrow> (only_set \<noteq> {} \<and> t \<notin> only_set) \<or> (exclude_set \<noteq> {} \<and> t \<in> exclude_set))
         then Inr False
         else
           (case (if match_patterns \<noteq> [] then matches_any_pattern pmatch rel match_patterns
                  else Inr True) of
              Inl e \<Rightarrow> Inl e
            | Inr matched \<Rightarrow>
                if \<not> matched then Inr False
                else if ext \<notin> IMAGE_EXTS then Inr False
                else Inr True))"

text \<open>
  A matcher for the examples: \<^verbatim>\<open>PurePath.match\<close> for a relative pattern made of
  literal characters, \<^verbatim>\<open>*\<close> and \<^verbatim>\<open>?\<close>. Empty components and \<^verbatim>\<open>.\<close> are dropped
  from the pattern and from the path; a pattern with no component left raises; else
  the components of the pattern are matched against the last components of the path,
  one by one.
\<close>

fun glob :: "string \<Rightarrow> string \<Rightarrow> bool" where
  "glob [] s = (s = [])"
| "glob (p # ps) [] = (p = CHR ''*'' \<and> glob ps [])"
| "glob (p # ps) (c # cs) =
     (if p = CHR ''*'' then glob ps (c # cs) \<or> glob (p # ps) cs
      else (p = CHR ''?'' \<or> p = c) \<and> glob ps cs)"

fun split_on :: "char \<Rightarrow> string \<Rightarrow> string list" where
  "split_on d [] = [[]]"
| "split_on d (c # cs) =
     (if c = d then [] # split_on d cs
      else (case split_on d cs of [] \<Rightarrow> [[c]] | w # ws \<Rightarrow> (c # w) # ws))"

definition components :: "string \<Rightarrow> string list" where
  "components s = filter (\<lambda>x. x \<noteq> [] \<and> x \<noteq> ''.'') (split_on (CHR ''/'') s)"

definition simple_match :: "string \<Rightarrow> string \<Rightarrow> bool option" where
  "simple_match s pat =
     (let ps = components pat; ss = components s
      in if ps = [] then None
         else Some (length ps \<le> length ss \<and>
                    list_all2 glob ps (drop (length ss - length ps) ss)))"

subsection \<open>The image transform\<close>

text \<open>A Pillow image: its size and its mode (\<^verbatim>\<open>"RGBA"\<close>, \<^verbatim>\<open>"RGB"\<close>, \<^verbatim>\<open>"P"\<close>, ...).\<close>

record image =
  width :: int
  height :: int
  img_mode :: string

text \<open>The float operations \<^verbatim>\<open>fit_into_frame\<close> uses, over a type \<open>'f\<close> of floats.\<close>

record 'f float_ops =
  fdiv :: "int \<Rightarrow> int \<Rightarrow> 'f"
  fmul :: "int \<Rightarrow> 'f \<Rightarrow> 'f"
  fless :: "'f \<Rightarrow> 'f \<Rightarrow> bool"
  fone :: "'f"
  ftrunc :: "'f \<Rightarrow> int"

text \<open>Python's \<^verbatim>\<open>min(a, b)\<close>: \<open>b\<close> when \<open>b < a\<close>, else \<open>a\<close>.\<close>

definition py_min :: "'f float_ops \<Rightarrow> 'f \<Rightarrow> 'f \<Rightarrow> 'f" where
  "py_min F a b = (if fless F b a then b else a)"

text \<open>
  Pillow. \<^verbatim>\<open>Image.convert\<close> gives the image in the requested mode;
  \<^verbatim>\<open>Image.resize\<close> gives an image of the requested size in the mode of its source;
  \<^verbatim>\<open>Image.new\<close> gives an image of the requested mode and size and raises
  \<^verbatim>\<open>ValueError\<close> on a negative size. \<^verbatim>\<open>Image.paste(src, box, mask)\<close> changes
  pixels of the target and leaves its size and mode; it raises \<^verbatim>\<open>ValueError\<close> (bad
  transparency mask) unless the mode of the mask is one of \<^verbatim>\<open>1\<close>, \<^verbatim>\<open>L\<close>,
  \<^verbatim>\<open>LA\<close>, \<^verbatim>\<open>RGBA\<close>, \<^verbatim>\<open>RGBa\<close>.
\<close>

definition convert :: "string \<Rightarrow> image \<Rightarrow> image" where
  "convert m img = img\<lparr>img_mode := m\<rparr>"

definition resize :: "image \<Rightarrow> int \<times> int \<Rightarrow> image" where
  "resize img sz = img\<lparr>width := fst sz, height := snd sz\<rparr>"

definition image_new :: "string \<Rightarrow> int \<times> int \<Rightarrow> error + image" where
  "image_new m sz =
     (if fst sz < 0 \<or> snd sz < 0 then Inl ValueError
      else Inr \<lparr>width = fst sz, height = snd sz, img_mode = m\<rparr>)"

definition mask_modes :: "string set" where
  "mask_modes = {''1'', ''L'', ''LA'', ''RGBA'', ''RGBa''}"

definition paste :: "image \<Rightarrow> image \<Rightarrow> int \<times> int \<Rightarrow> image \<Rightarrow> error + image" where
  "paste frame src box src_mask =
     (if img_mode src_mask \<in> mask_modes then Inr frame else Inl ValueError)"

definition fit_into_frame :: "'f float_ops \<Rightarrow> image \<Rightarrow> int \<times> int \<Rightarrow> bool \<Rightarrow> error + image" where
  "fit_into_frame F logo frame_size allow_upscale =
     (let frame_w = fst frame_size; frame_h = snd frame_size;
          lw = width logo; lh = height logo
      in if lw = 0 \<or> lh = 0 then Inl ZeroDivisionError
         else
           (let scale_w = fdiv F frame_w lw;
                scale_h = fdiv F frame_h lh;
                scale0 = py_min F scale_w scale_h;
                scale = (if \<not> allow_upscale then py_min F scale0 (fone F) else scale0);
                new_w = max 1 (ftrunc F (fmul F lw scale));
                new_h = max 1 (ftrunc F (fmul F lh scale));
                logo_resized = resize logo (new_w, new_h)
            in case image_new ''RGBA'' (frame_w, frame_h) of
                 Inl e \<Rightarrow> Inl e
               | Inr frame \<Rightarrow>
                   (let x = (frame_w - new_w) div 2;
                        y = (frame_h - new_h) div 2
                    in paste frame logo_resized (x, y) logo_resized)))"

text \<open>Exact rational arithmetic in place of floats, for the examples.\<close>

definition rat_ops :: "rat float_ops" where
  "rat_ops = \<lparr>fdiv = (\<lambda>a b. of_int a / of_int b), fmul = (\<lambda>a x. of_int a * x),
              fless = (\<lambda>a b. a < b), fone = 1, ftrunc = (\<lambda>x. if x < 0 then - \<lfloor>- x\<rfloor> else \<lfloor>x\<rfloor>)\<rparr>"

subsection \<open>JSON documents and the cache file\<close>

datatype json = JNull | JBool bool | JInt int | JStr string
  | JList "json list" | JObj "(string \<times> json) list"

text \<open>
  Python's \<^verbatim>\<open>==\<close> on such values: \<^verbatim>\<open>True == 1\<close> and \<^verbatim>\<open>False == 0\<close>, lists are
  compared in order, dicts by their keys and the values under them.
\<close>

function (sequential) py_eq :: "json \<Rightarrow> json \<Rightarrow> bool" where
  "py_eq JNull JNull = True"
| "py_eq (JBool a) (JBool b) = (a = b)"
| "py_eq (JBool a) (JInt b) = (b = (if a then 1 else 0))"
| "py_eq (JInt a) (JBool b) = (a = (if b then 1 else 0))"
| "py_eq (JInt a) (JInt b) = (a = b)"
| "py_eq (JStr a) (JStr b) = (a = b)"
| "py_eq (JList xs) (JList ys) =
     (length xs = length ys \<and> (\<forall>i < length xs. py_eq (xs ! i) (ys ! i)))"
| "py_eq (JObj xs) (JObj ys) =
     (fst ` set xs = fst ` set ys \<and>
      (\<forall>(k, a) \<in> set xs. map_of xs k = Some a \<longrightarrow>
         (case map_of ys k of None \<Rightarrow> False | Some b \<Rightarrow> py_eq a b)))"
| "py_eq _ _ = False"
  by pat_completeness auto
termination
proof -
  have in_list: "v \<in> set vs \<Longrightarrow> size v < Suc (size_list size vs)" for v :: json and vs
    by (induction vs) auto
  have in_obj: "(k, v) \<in> set kvs \<Longrightarrow> size v < Suc (size_list (size_prod (\<lambda>_. 0) size) kvs)"
    for k :: string and v :: json and kvs
    by (induction kvs) auto
  show ?thesis
    by (relation "measure (\<lambda>(a, b). size a)") (auto simp: in_list in_obj)
qed

text \<open>
  \<^verbatim>\<open>d.get(k, default)\<close> and \<^verbatim>\<open>d[k] = v\<close>. Only a dict has \<^verbatim>\<open>get\<close>
  (\<^verbatim>\<open>AttributeError\<close> otherwise); no other JSON value can be assigned at a string key
  (\<^verbatim>\<open>TypeError\<close>). Python's \<^verbatim>\<open>None\<close> is \<open>JNull\<close>.
\<close>

fun py_get :: "json \<Rightarrow> string \<Rightarrow> json \<Rightarrow> error + json" where
  "py_get (JObj kvs) k dflt = Inr (case map_of kvs k of None \<Rightarrow> dflt | Some v \<Rightarrow> v)"
| "py_get _ k dflt = Inl AttributeError"

fun py_set :: "json \<Rightarrow> string \<Rightarrow> json \<Rightarrow> error + json" where
  "py_set (JObj kvs) k v = Inr (JObj (AList.update k v kvs))"
| "py_set _ k v = Inl TypeError"

text \<open>
  The cache file, by what \<^verbatim>\<open>json.loads(cache_path.read_text())\<close> makes of it: there
  is no file, or reading and parsing raises, or it yields a document.
  \<^verbatim>\<open>save_cache\<close> writes a file that parses to the document saved.
\<close>

datatype cache_file = NoFile | Unparseable | Doc json

fun load_cache :: "cache_file \<Rightarrow> json" where
  "load_cache NoFile = JObj []"
| "load_cache Unparseable = JObj []"
| "load_cache (Doc j) = j"

definition save_cache :: "json \<Rightarrow> cache_file" where
  "save_cache data = Doc data"

subsection \<open>The environment\<close>

text \<open>
  A rasterizer run on the bytes of an SVG file either returns, having written the
  temporary PNG, or raises, with or without a file left at the temporary path.
\<close>

datatype raster_run = Rendered bytes | Crashed "bytes option"

text \<open>
  \<^verbatim>\<open>Image.open\<close> on the bytes of a file, with all that can go wrong in
  \<^verbatim>\<open>Image.open(...).convert("RGBA")\<close>: an image in the mode of the file,
  \<^verbatim>\<open>UnidentifiedImageError\<close>, or another exception of the decoder.
\<close>

datatype decoded = Decoded image | Unidentified | Broken

record 'f env =
  sha1 :: "bytes \<Rightarrow> string"
  path_match :: "string \<Rightarrow> string \<Rightarrow> bool option"
  cairosvg :: "bytes \<Rightarrow> raster_run"
  which_inkscape :: bool
  inkscape :: "bytes \<Rightarrow> raster_run"
  decode :: "bytes \<Rightarrow> decoded"
  save_png :: "path \<Rightarrow> bool"
  floats :: "'f float_ops"

subsection \<open>The source loader\<close>

text \<open>The temporary raster files lying in the input tree, by relative path.\<close>

type_synonym rasters = "path \<rightharpoonup> bytes"

definition run_rasterizer :: "raster_run \<Rightarrow> path \<Rightarrow> rasters \<Rightarrow> bool \<times> rasters" where
  "run_rasterizer r out_png rs =
     (case r of
        Rendered b \<Rightarrow> (True, rs(out_png \<mapsto> b))
      | Crashed None \<Rightarrow> (False, rs)
      | Crashed (Some b) \<Rightarrow> (False, rs(out_png \<mapsto> b)))"

text \<open>
  \<^verbatim>\<open>_load_tmp\<close>: \<open>None\<close> when \<^verbatim>\<open>Image.open(tmp_png).convert("RGBA")\<close> raises (no
  file, or the decoder fails); the file is unlinked after a successful load.
\<close>

definition load_tmp :: "'f env \<Rightarrow> path \<Rightarrow> rasters \<Rightarrow> image option \<times> rasters" where
  "load_tmp E tmp_png rs =
     (case rs tmp_png of
        None \<Rightarrow> (None, rs)
      | Some b \<Rightarrow>
          (case decode E b of
             Decoded img \<Rightarrow> (Some (convert ''RGBA'' img), rs(tmp_png := None))
           | _ \<Rightarrow> (None, rs)))"

text \<open>
  The body of a \<^verbatim>\<open>try\<close> block: the rasterizer, then \<^verbatim>\<open>_load_tmp\<close>. \<open>None\<close>
  when the block raises.
\<close>

definition rasterize_and_load :: "'f env \<Rightarrow> raster_run \<Rightarrow> path \<Rightarrow> rasters \<Rightarrow> image option \<times> rasters" where
  "rasterize_and_load E r tmp_png rs =
     (case run_rasterizer r tmp_png rs of
        (True, rs1) \<Rightarrow> load_tmp E tmp_png rs1
      | (False, rs1) \<Rightarrow> (None, rs1))"

text \<open>
  \<^verbatim>\<open>open_image_any(path, svg_engine)\<close> on the file \<open>path\<close> of contents \<open>data\<close>:
  the image or \<^verbatim>\<open>None\<close>, or the exception that the bitmap branch lets through, and
  the temporary files after the call.
\<close>

definition open_image_any ::
    "'f env \<Rightarrow> rasters \<Rightarrow> path \<Rightarrow> bytes \<Rightarrow> string \<Rightarrow> (error + image option) \<times> rasters" where
  "open_image_any E rs path data svg_engine =
     (let ext = lower (suffix path) in
      if ext = ''.svg'' then
        (let tmp_png = with_suffix path ''.tmp._rasterized.png'' in
         if svg_engine = ''skip'' then (Inr None, rs)
         else
           (case (if svg_engine \<in> {''auto'', ''cairosvg''} then
                    (case rasterize_and_load E (cairosvg E data) tmp_png rs of
                       (Some img, rs1) \<Rightarrow> (Some (Some img), rs1)
                     | (None, rs1) \<Rightarrow>
                         (if svg_engine = ''cairosvg'' then (Some None, rs1) else (None, rs1)))
                  else (None, rs)) of
              (Some returned, rs1) \<Rightarrow> (Inr returned, rs1)
            | (None, rs1) \<Rightarrow>
                if svg_engine \<in> {''auto'', ''inkscape''} then
                  (if \<not> which_inkscape E then (Inr None, rs1)
                   else
                     (case rasterize_and_load E (inkscape E data) tmp_png rs1 of
                        (Some img, rs2) \<Rightarrow> (Inr (Some img), rs2)
                      | (None, rs2) \<Rightarrow> (Inr None, rs2)))
                else (Inr None, rs1)))
      else
        (case decode E data of
           Decoded img \<Rightarrow> (Inr (Some (convert ''RGBA'' img)), rs)
         | Unidentified \<Rightarrow> (Inr None, rs)
         | Broken \<Rightarrow> (Inl DecoderError, rs)))"

subsection \<open>The output tree and one build\<close>

record out_tree =
  dirs :: "path set"
  files :: "path \<rightharpoonup> image"
  cache_file :: cache_file

text \<open>
  What the program can write: the output directory (\<open>None\<close> when it does not exist)
  and the temporary raster files in the input tree.
\<close>

record world =
  out_dir :: "out_tree option"
  tmp_files :: rasters

definition empty_tree :: out_tree where
  "empty_tree = \<lparr>dirs = {}, files = Map.empty, cache_file = NoFile\<rparr>"

text \<open>\<^verbatim>\<open>(output_dir / d).mkdir(parents=True, exist_ok=True)\<close>.\<close>

definition mkdir_parents :: "path \<Rightarrow> world \<Rightarrow> world" where
  "mkdir_parents d w =
     (let t = (case out_dir w of None \<Rightarrow> empty_tree | Some t \<Rightarrow> t)
      in w\<lparr>out_dir := Some (t\<lparr>dirs := dirs t \<union> (\<lambda>n. take n d) ` {1..length d}\<rparr>)\<rparr>)"

text \<open>\<^verbatim>\<open>(output_dir / p).exists()\<close>.\<close>

definition out_exists :: "world \<Rightarrow> path \<Rightarrow> bool" where
  "out_exists w p =
     (case out_dir w of None \<Rightarrow> False | Some t \<Rightarrow> p \<in> dom (files t) \<or> p \<in> dirs t)"

definition write_png :: "path \<Rightarrow> image \<Rightarrow> world \<Rightarrow> world" where
  "write_png p img w =
     (case out_dir w of
        None \<Rightarrow> w
      | Some t \<Rightarrow> w\<lparr>out_dir := Some (t\<lparr>files := (files t)(p \<mapsto> img)\<rparr>)\<rparr>)"

definition process_one ::
    "'f env \<Rightarrow> world \<Rightarrow> path \<Rightarrow> bytes \<Rightarrow> path \<Rightarrow> int \<times> int \<Rightarrow> bool \<Rightarrow> string \<Rightarrow> (error + bool) \<times> world" where
  "process_one E w input_path data output_path frame_size allow_upscale svg_engine =
     (case open_image_any E (tmp_files w) input_path data svg_engine of
        (Inl e, rs) \<Rightarrow> (Inl e, w\<lparr>tmp_files := rs\<rparr>)
      | (Inr None, rs) \<Rightarrow> (Inr False, w\<lparr>tmp_files := rs\<rparr>)
      | (Inr (Some img), rs) \<Rightarrow>
          (case fit_into_frame (floats E) img frame_size allow_upscale of
             Inl e \<Rightarrow> (Inl e, w\<lparr>tmp_files := rs\<rparr>)
           | Inr picon \<Rightarrow>
               (let w1 = mkdir_parents (butlast output_path) (w\<lparr>tmp_files := rs\<rparr>)
                in if save_png E output_path then (Inr True, write_png output_path picon w1)
                   else (Inr False, w1))))"

subsection \<open>The options and the build planner\<close>

datatype build_mode = All | Changed | Missing

record options =
  frame_size :: "int \<times> int"
  prefix :: string
  allow_upscale :: bool
  mode :: build_mode
  only_set :: "string set"
  exclude_set :: "string set"
  match_patterns :: "string list"
  svg_engine :: string
  clean :: bool
  dry_run :: bool

definition cfg_fingerprint :: "options \<Rightarrow> json" where
  "cfg_fingerprint a =
     JObj [(''frame_w'', JInt (fst (frame_size a))),
           (''frame_h'', JInt (snd (frame_size a))),
           (''prefix'', JStr (prefix a)),
           (''allow_upscale'', JBool (allow_upscale a)),
           (''svg_engine'', JStr (svg_engine a)),
           (''version'', JInt 2)]"

text \<open>The override of the mode, applied once after the cache is loaded.\<close>

definition effective_mode :: "json \<Rightarrow> json \<Rightarrow> build_mode \<Rightarrow> build_mode" where
  "effective_mode cache_cfg fingerprint m =
     (if \<not> py_eq cache_cfg fingerprint \<and> m \<noteq> All then Changed else m)"

text \<open>
  \<^verbatim>\<open>out_rel = rel.with_suffix(".png")\<close>, then
  \<^verbatim>\<open>out_rel.parent / (prefix + out_rel.name)\<close>.
\<close>

definition out_rel_of :: "string \<Rightarrow> path \<Rightarrow> path" where
  "out_rel_of pfx rel = (let p = with_suffix rel ''.png'' in butlast p @ [pfx @ name_of p])"

text \<open>
  The enumeration loop over the files that \<^verbatim>\<open>input_dir.rglob("*")\<close> yields, each with
  its relative path and its contents: the list \<^verbatim>\<open>to_process\<close>, or the exception
  that ends the loop.
\<close>

fun collect ::
    "(string \<Rightarrow> string \<Rightarrow> bool option) \<Rightarrow> string set \<Rightarrow> string set \<Rightarrow> string list \<Rightarrow> string
       \<Rightarrow> (path \<times> bytes) list \<Rightarrow> error + (path \<times> bytes \<times> path) list" where
  "collect pmatch only excl pats pfx [] = Inr []"
| "collect pmatch only excl pats pfx ((rel, data) # rest) =
     (case is_candidate pmatch only excl pats rel of
        Inl e \<Rightarrow> Inl e
      | Inr keep \<Rightarrow>
          (case collect pmatch only excl pats pfx rest of
             Inl e \<Rightarrow> Inl e
           | Inr cs \<Rightarrow> Inr (if keep then (rel, data, out_rel_of pfx rel) # cs else cs)))"

definition collect_candidates ::
    "'f env \<Rightarrow> options \<Rightarrow> (path \<times> bytes) list \<Rightarrow> error + (path \<times> bytes \<times> path) list" where
  "collect_candidates E a listing =
     collect (path_match E) (only_set a) (exclude_set a) (match_patterns a) (prefix a) listing"

text \<open>The list \<^verbatim>\<open>to_process\<close> of an enumeration loop that completes.\<close>

definition to_process_of ::
    "'f env \<Rightarrow> options \<Rightarrow> (path \<times> bytes) list \<Rightarrow> (path \<times> bytes \<times> path) list" where
  "to_process_of E a listing =
     (case collect_candidates E a listing of Inl e \<Rightarrow> [] | Inr cs \<Rightarrow> cs)"

definition cache_key :: "path \<Rightarrow> string" where
  "cache_key rel_in = normalize_seps (str_of_path rel_in)"

datatype reason = R_all | R_new | R_config_changed | R_missing_out | R_content_changed

datatype decision = BUILD reason | SKIP

text \<open>
  The decision of the build loop for one candidate (\<^verbatim>\<open>do_build\<close> and
  \<^verbatim>\<open>reason\<close>), from the mode, the fingerprint, the cache entries, the key, the hash
  of the source and whether the output exists.
\<close>

definition decide ::
    "build_mode \<Rightarrow> json \<Rightarrow> json \<Rightarrow> string \<Rightarrow> string \<Rightarrow> bool \<Rightarrow> error + decision" where
  "decide m fingerprint fcache key src_hash out_there =
     (if m = All then Inr (BUILD R_all)
      else
        (case py_get fcache key JNull of
           Inl e \<Rightarrow> Inl e
         | Inr entry \<Rightarrow>
             (case (if entry = JNull then Inr (Some R_new)
                    else
                      (case py_get entry ''cfg'' JNull of
                         Inl e \<Rightarrow> Inl e
                       | Inr c \<Rightarrow>
                           if \<not> py_eq c fingerprint then Inr (Some R_config_changed)
                           else if m = Missing \<and> \<not> out_there then Inr (Some R_missing_out)
                           else if m = Changed then
                             (case py_get entry ''src_sha1'' JNull of
                                Inl e \<Rightarrow> Inl e
                              | Inr h \<Rightarrow>
                                  if \<not> py_eq h (JStr src_hash) then Inr (Some R_content_changed)
                                  else Inr None)
                           else Inr None)) of
                Inl e \<Rightarrow> Inl e
              | Inr (Some r) \<Rightarrow> Inr (BUILD r)
              | Inr None \<Rightarrow>
                  if \<not> out_there \<and> m \<noteq> Changed then Inr (BUILD R_missing_out)
                  else Inr SKIP)))"

text \<open>The cache entry written after a successful build.\<close>

definition cache_entry :: "string \<Rightarrow> json \<Rightarrow> json" where
  "cache_entry src_hash fingerprint = JObj [(''src_sha1'', JStr src_hash), (''cfg'', fingerprint)]"

record run_state =
  files_cache :: json
  st_world :: world
  ok :: nat
  skipped :: nat
  decisions :: "(path \<times> decision) list"

text \<open>
  One turn of the build loop. An exception ends the run: \<open>Inl\<close> carries it with the
  world as it is then.
\<close>

definition build_step ::
    "'f env \<Rightarrow> options \<Rightarrow> build_mode \<Rightarrow> json \<Rightarrow> path \<times> bytes \<times> path \<Rightarrow> run_state
       \<Rightarrow> error \<times> world + run_state" where
  "build_step E a m fingerprint c st =
     (case c of (rel_in, data, abs_out) \<Rightarrow>
        (let key = cache_key rel_in in
         case decide m fingerprint (files_cache st) key (sha1 E data)
                (out_exists (st_world st) abs_out) of
           Inl e \<Rightarrow> Inl (e, st_world st)
         | Inr SKIP \<Rightarrow>
             Inr (st\<lparr>skipped := skipped st + 1, decisions := decisions st @ [(rel_in, SKIP)]\<rparr>)
         | Inr (BUILD r) \<Rightarrow>
             (let st1 = st\<lparr>decisions := decisions st @ [(rel_in, BUILD r)]\<rparr> in
              if dry_run a then Inr st1
              else
                (case process_one E (st_world st) rel_in data abs_out (frame_size a)
                        (allow_upscale a) (svg_engine a) of
                   (Inl e, w) \<Rightarrow> Inl (e, w)
                 | (Inr False, w) \<Rightarrow> Inr (st1\<lparr>st_world := w, skipped := skipped st + 1\<rparr>)
                 | (Inr True, w) \<Rightarrow>
                     (case py_set (files_cache st) key (cache_entry (sha1 E data) fingerprint) of
                        Inl e \<Rightarrow> Inl (e, w)
                      | Inr fc \<Rightarrow>
                          Inr (st1\<lparr>st_world := w, ok := ok st + 1, files_cache := fc\<rparr>))))))"

fun build_loop ::
    "'f env \<Rightarrow> options \<Rightarrow> build_mode \<Rightarrow> json \<Rightarrow> (path \<times> bytes \<times> path) list \<Rightarrow> run_state
       \<Rightarrow> error \<times> world + run_state" where
  "build_loop E a m fingerprint [] st = Inr st"
| "build_loop E a m fingerprint (c # cs) st =
     (case build_step E a m fingerprint c st of
        Inl x \<Rightarrow> Inl x
      | Inr st1 \<Rightarrow> build_loop E a m fingerprint cs st1)"

subsection \<open>The run\<close>

text \<open>The clean step: \<^verbatim>\<open>shutil.rmtree(output_dir, ignore_errors=True)\<close>.\<close>

definition clean_step :: "options \<Rightarrow> world \<Rightarrow> world" where
  "clean_step a w =
     (if clean a \<and> out_dir w \<noteq> None then
        (if \<not> dry_run a then w\<lparr>out_dir := None\<rparr> else w)
      else w)"

definition cache_file_of :: "world \<Rightarrow> cache_file" where
  "cache_file_of w = (case out_dir w of None \<Rightarrow> NoFile | Some t \<Rightarrow> cache_file t)"

text \<open>The end of a run that is not a dry run: the cache document is completed and saved.\<close>

definition save_step :: "json \<Rightarrow> json \<Rightarrow> json \<Rightarrow> world \<Rightarrow> error + world" where
  "save_step cache fingerprint fcache w =
     (case py_set cache ''_config'' fingerprint of
        Inl e \<Rightarrow> Inl e
      | Inr c1 \<Rightarrow>
          (case py_set c1 ''files'' fcache of
             Inl e \<Rightarrow> Inl e
           | Inr c2 \<Rightarrow>
               (let w1 = mkdir_parents [] w
                in Inr (case out_dir w1 of
                          None \<Rightarrow> w1
                        | Some t \<Rightarrow> w1\<lparr>out_dir := Some (t\<lparr>cache_file := save_cache c2\<rparr>)\<rparr>))))"

record summary =
  total :: nat
  generated :: nat
  passed :: nat
  final_mode :: build_mode
  outcome :: "(path \<times> decision) list"

text \<open>
  \<^verbatim>\<open>main\<close> after the arguments are parsed. \<open>input\<close> is \<open>None\<close> when the input
  directory does not exist, else the files of the input tree in the order of the
  traversal. The result is the summary or the exception that ended the run, and the
  world left behind.
\<close>

definition main ::
    "'f env \<Rightarrow> options \<Rightarrow> (path \<times> bytes) list option \<Rightarrow> world \<Rightarrow> (error + summary) \<times> world" where
  "main E a input w =
     (case input of
        None \<Rightarrow> (Inl (SystemExit 1), w)
      | Some listing \<Rightarrow>
          (let w0 = clean_step a w;
               cache = load_cache (cache_file_of w0);
               fingerprint = cfg_fingerprint a
           in case py_get cache ''_config'' JNull of
                Inl e \<Rightarrow> (Inl e, w0)
              | Inr cache_cfg \<Rightarrow>
                  (let m = effective_mode cache_cfg fingerprint (mode a)
                   in case collect_candidates E a listing of
                        Inl e \<Rightarrow> (Inl e, w0)
                      | Inr to_process \<Rightarrow>
                          (case py_get cache ''files'' (JObj []) of
                             Inl e \<Rightarrow> (Inl e, w0)
                           | Inr fcache \<Rightarrow>
                               (case build_loop E a m fingerprint to_process
                                       \<lparr>files_cache = fcache, st_world = w0, ok = 0,
                                        skipped = 0, decisions = []\<rparr> of
                                  Inl (e, w1) \<Rightarrow> (Inl e, w1)
                                | Inr st \<Rightarrow>
                                    (let s = \<lparr>total = length to_process, generated = ok st,
                                              passed = skipped st, final_mode = m,
                                              outcome = decisions st\<rparr>
                                     in if dry_run a then (Inr s, st_world st)
                                        else
                                          (case save_step cache fingerprint (files_cache st)
                                                  (st_world st) of
                                             Inl e \<Rightarrow> (Inl e, st_world st)
                                           | Inr w2 \<Rightarrow> (Inr s, w2))))))))"

subsection \<open>An environment and inputs for the examples\<close>

text \<open>
  The hash is the identity and floats are exact rationals. The software rasterizer
  renders \<^verbatim>\<open><svg/>\<close> to a PNG the decoder reads, any other SVG to one the
  decoder rejects; the external tool is not installed.
\<close>

definition demo_env :: "rat env" where
  "demo_env =
     \<lparr>sha1 = (\<lambda>b. b),
      path_match = simple_match,
      cairosvg = (\<lambda>b. if b = ''<svg/>'' then Rendered ''PNG'' else Rendered ''HUGE''),
      which_inkscape = False,
      inkscape = (\<lambda>b. Crashed None),
      decode = (\<lambda>b. if b = ''PNG'' then Decoded \<lparr>width = 4, height = 2, img_mode = ''RGB''\<rparr>
                     else if b = ''HUGE'' then Broken else Unidentified),
      save_png = (\<lambda>p. True),
      floats = rat_ops\<rparr>"

definition demo_options :: options where
  "demo_options =
     \<lparr>frame_size = (100, 50), prefix = ''sxa_'', allow_upscale = True, mode = All,
      only_set = {}, exclude_set = {}, match_patterns = [], svg_engine = ''auto'',
      clean = False, dry_run = False\<rparr>"

definition empty_world :: world where
  "empty_world = \<lparr>out_dir = None, tmp_files = Map.empty\<rparr>"

definition demo_tree :: "(path \<times> bytes) list" where
  "demo_tree = [([''A'', ''a.png''], ''PNG''), ([''B'', ''b.svg''], ''<svg/>'')]"

text \<open>The same options with a smaller frame, and the world a run with them leaves.\<close>

definition narrow_options :: options where
  "narrow_options = demo_options\<lparr>frame_size := (64, 32)\<rparr>"


text \<open>
  A POSIX input tree with a file named \<^verbatim>\<open>a\b.png\<close> at its root and a file
  \<^verbatim>\<open>b.png\<close> in its directory \<^verbatim>\<open>a\<close>, of equal contents.
\<close>

definition clash_tree :: "(path \<times> bytes) list" where
  "clash_tree = [([''a'' @ [backslash] @ ''b.png''], ''PNG''), ([''a'', ''b.png''], ''PNG'')]"

section \<open>Properties\<close>

subsection \<open>Filtering\<close>




text \<open>
  A pattern with no component, such as \<^verbatim>\<open>.\<close>, makes the matcher raise at the first
  file that reaches it: the run ends on \<^verbatim>\<open>ValueError\<close> in the enumeration loop,
  before anything is written.
\<close>

lemma empty_pattern_ends_run:
  "main demo_env (demo_options\<lparr>match_patterns := [''.'']\<rparr>) (Some demo_tree) empty_world
     = (Inl ValueError, empty_world)"
  by (simp add: main_def demo_options_def demo_env_def demo_tree_def empty_world_def
      clean_step_def cache_file_of_def collect_candidates_def is_candidate_def
      top_level_dir_of_def matches_any_pattern_def simple_match_def components_def)

text \<open>
  C2 (the code at the failing input). The file \<^verbatim>\<open>logo.png\<close> sits at the root of the
  input tree: its relative path has the single part \<^verbatim>\<open>logo.png\<close>. The claim says
  its top category is none; \<^verbatim>\<open>top_level_dir_of\<close> returns the file name. So the
  inclusion set \<^verbatim>\<open>{logo.png}\<close> keeps the file, the exclusion set \<^verbatim>\<open>{logo.png}\<close>
  drops it, and under the inclusion set \<^verbatim>\<open>{A}\<close> a matching path pattern does not
  keep it.
\<close>

theorem root_file_has_top_category:
  "top_level_dir_of [''logo.png''] = Some ''logo.png'' \<and>
   is_candidate simple_match {''logo.png''} {} [] [''logo.png''] = Inr True \<and>
   is_candidate simple_match {} {''logo.png''} [] [''logo.png''] = Inr False \<and>
   is_candidate simple_match {''A''} {} [''*.png''] [''logo.png''] = Inr False"
  by (simp add: is_candidate_def top_level_dir_of_def lower_def suffix_def suffix_of_name_def
      name_of_def IMAGE_EXTS_def lower_char_def)

subsection \<open>The source loader\<close>

text \<open>After a successful load of an SVG the temporary file is gone.\<close>

lemma load_tmp_removes:
  "load_tmp E tmp rs = (Some img, rs') \<Longrightarrow> rs' tmp = None"
  by (auto simp: load_tmp_def split: option.splits decoded.splits)

lemma rasterize_and_load_removes:
  "rasterize_and_load E r tmp rs = (Some img, rs') \<Longrightarrow> rs' tmp = None"
  by (auto simp: rasterize_and_load_def split: prod.splits bool.splits dest: load_tmp_removes)

lemma open_svg_success_removes_tmp:
  assumes "open_image_any E rs p d eng = (Inr (Some img), rs')"
      and "lower (suffix p) = ''.svg''"
  shows "rs' (with_suffix p ''.tmp._rasterized.png'') = None"
proof -
  let ?tmp = "with_suffix p ''.tmp._rasterized.png''"
  obtain r1 rs1 where c: "rasterize_and_load E (cairosvg E d) ?tmp rs = (r1, rs1)" by fastforce
  obtain r2 rs2 where i: "rasterize_and_load E (inkscape E d) ?tmp rs = (r2, rs2)" by fastforce
  obtain r3 rs3 where j: "rasterize_and_load E (inkscape E d) ?tmp rs1 = (r3, rs3)" by fastforce
  from assms c i j show ?thesis
    by (auto simp: open_image_any_def Let_def split: if_splits option.splits
        dest: rasterize_and_load_removes)
qed

text \<open>
  C3 (the code at the failing input). With the engine \<^verbatim>\<open>cairosvg\<close>, the rasterizer
  writes the temporary PNG of \<^verbatim>\<open>B/b.svg\<close> and the decoder then raises on it:
  \<^verbatim>\<open>open_image_any\<close> returns \<^verbatim>\<open>None\<close> and the temporary file
  \<^verbatim>\<open>B/b.tmp._rasterized.png\<close> is still there.
\<close>

theorem temp_raster_left_behind:
  "open_image_any demo_env Map.empty [''B'', ''b.svg''] ''<svg width=50000/>'' ''cairosvg''
     = (Inr None, [[''B'', ''b.tmp._rasterized.png''] \<mapsto> ''HUGE''])"
  by (simp add: open_image_any_def demo_env_def rasterize_and_load_def run_rasterizer_def
      load_tmp_def with_suffix_def lower_def suffix_def suffix_of_name_def name_of_def
      lower_char_def)

subsection \<open>The image transform\<close>

text \<open>
  C7 (as stated, refuted). The claim: for every bitmap of positive size and every
  positive frame, \<^verbatim>\<open>fit_into_frame\<close> returns an image of the size of the frame. A
  bitmap of 4 by 2 pixels in mode \<^verbatim>\<open>RGB\<close> cannot be its own paste mask:
  \<^verbatim>\<open>fit_into_frame\<close> raises \<^verbatim>\<open>ValueError\<close> and returns no image.
\<close>

theorem fit_into_frame_counterexample:
  "0 < width \<lparr>width = 4, height = 2, img_mode = ''RGB''\<rparr> \<and>
   0 < height \<lparr>width = 4, height = 2, img_mode = ''RGB''\<rparr> \<and>
   fit_into_frame rat_ops \<lparr>width = 4, height = 2, img_mode = ''RGB''\<rparr> (100, 50) True
     = Inl ValueError"
  by (simp add: fit_into_frame_def image_new_def paste_def resize_def mask_modes_def Let_def)

text \<open>Every image that the source loader returns is in mode \<^verbatim>\<open>RGBA\<close>.\<close>

lemma load_tmp_rgba:
  "load_tmp E tmp rs = (Some img, rs') \<Longrightarrow> img_mode img = ''RGBA''"
  by (auto simp: load_tmp_def convert_def split: option.splits decoded.splits)

lemma rasterize_and_load_rgba:
  "rasterize_and_load E r tmp rs = (Some img, rs') \<Longrightarrow> img_mode img = ''RGBA''"
  by (auto simp: rasterize_and_load_def split: prod.splits bool.splits dest: load_tmp_rgba)

lemma open_image_any_rgba:
  assumes "open_image_any E rs p d eng = (Inr (Some img), rs')"
  shows "img_mode img = ''RGBA''"
proof -
  let ?tmp = "with_suffix p ''.tmp._rasterized.png''"
  obtain r1 rs1 where c: "rasterize_and_load E (cairosvg E d) ?tmp rs = (r1, rs1)" by fastforce
  obtain r2 rs2 where i: "rasterize_and_load E (inkscape E d) ?tmp rs = (r2, rs2)" by fastforce
  obtain r3 rs3 where j: "rasterize_and_load E (inkscape E d) ?tmp rs1 = (r3, rs3)" by fastforce
  from assms c i j show ?thesis
    by (auto simp: open_image_any_def convert_def Let_def
        split: if_splits option.splits decoded.splits dest: rasterize_and_load_rgba)
qed

text \<open>
  C7 (amended). For a bitmap in mode \<^verbatim>\<open>RGBA\<close>, as the source loader returns it, of
  positive width and height, and a frame of positive width and height,
  \<^verbatim>\<open>fit_into_frame\<close> returns an image, and its size is the frame's, whatever the
  float operations compute.
\<close>

theorem fit_into_frame_size:
  assumes "img_mode logo = ''RGBA''"
      and "0 < width logo" and "0 < height logo" and "0 < fw" and "0 < fh"
  shows "\<exists>img. fit_into_frame F logo (fw, fh) up = Inr img \<and> width img = fw \<and> height img = fh"
  using assms
  by (simp add: fit_into_frame_def image_new_def paste_def resize_def mask_modes_def Let_def)

theorem fit_into_frame_size_witness:
  "\<exists>img. fit_into_frame rat_ops \<lparr>width = 4, height = 2, img_mode = ''RGBA''\<rparr> (100, 50) False
           = Inr img \<and> width img = 100 \<and> height img = 50"
  using fit_into_frame_size [of "\<lparr>width = 4, height = 2, img_mode = ''RGBA''\<rparr>" 100 50 rat_ops
      False] by simp

subsection \<open>The cache file\<close>

text \<open>
  C8. When there is no cache file, or reading and parsing it raises,
  \<^verbatim>\<open>load_cache\<close> returns the empty dict, and the two lookups that \<^verbatim>\<open>main\<close> makes
  in it succeed.
\<close>

theorem load_cache_never_fails:
  assumes "cf = NoFile \<or> cf = Unparseable"
  shows "load_cache cf = JObj [] \<and>
         py_get (load_cache cf) ''_config'' JNull = Inr JNull \<and>
         py_get (load_cache cf) ''files'' (JObj []) = Inr (JObj [])"
  using assms by auto

theorem load_cache_never_fails_witness:
  "load_cache Unparseable = JObj [] \<and> load_cache NoFile = JObj []"
  using load_cache_never_fails [of Unparseable] load_cache_never_fails [of NoFile] by simp

subsection \<open>The mode of a run\<close>

lemma effective_mode_Changed [simp]: "effective_mode c fp Changed = Changed"
  by (simp add: effective_mode_def)

lemma build_step_mode_irrelevant [simp]:
  "build_step E (a\<lparr>mode := m'\<rparr>) m fp c st = build_step E a m fp c st"
  by (simp add: build_step_def cong: prod.case_cong sum.case_cong decision.case_cong
      bool.case_cong if_cong)

lemma build_loop_mode_irrelevant [simp]:
  "build_loop E (a\<lparr>mode := m'\<rparr>) m fp cs st = build_loop E a m fp cs st"
  by (induction cs arbitrary: st) (simp_all cong: sum.case_cong)




lemma not_py_eq_JNull_fingerprint [simp]: "\<not> py_eq JNull (cfg_fingerprint a)"
  by (simp add: cfg_fingerprint_def)



subsection \<open>Dry runs\<close>

lemma build_step_dry:
  assumes "dry_run a"
  shows "build_step E a m fp c st = Inl (e, w) \<Longrightarrow> w = st_world st"
    and "build_step E a m fp c st = Inr st' \<Longrightarrow> st_world st' = st_world st"
  using assms
  by (auto simp: build_step_def Let_def split: sum.splits prod.splits decision.splits)

lemma build_loop_dry_Inl:
  assumes "dry_run a"
  shows "build_loop E a m fp cs st = Inl (e, w) \<Longrightarrow> w = st_world st"
proof (induction cs arbitrary: st)
  case Nil
  then show ?case by simp
next
  case (Cons c cs)
  show ?case
  proof (cases "build_step E a m fp c st")
    case (Inl x)
    with Cons.prems have "build_step E a m fp c st = Inl (e, w)" by simp
    then show ?thesis by (rule build_step_dry(1) [OF assms])
  next
    case (Inr st1)
    with Cons.prems have "build_loop E a m fp cs st1 = Inl (e, w)" by simp
    then have "w = st_world st1" by (rule Cons.IH)
    also have "st_world st1 = st_world st" using Inr by (rule build_step_dry(2) [OF assms])
    finally show ?thesis .
  qed
qed

lemma build_loop_dry_Inr:
  assumes "dry_run a"
  shows "build_loop E a m fp cs st = Inr st' \<Longrightarrow> st_world st' = st_world st"
proof (induction cs arbitrary: st)
  case Nil
  then show ?case by simp
next
  case (Cons c cs)
  show ?case
  proof (cases "build_step E a m fp c st")
    case (Inl x)
    with Cons.prems show ?thesis by simp
  next
    case (Inr st1)
    with Cons.prems have "build_loop E a m fp cs st1 = Inr st'" by simp
    then have "st_world st' = st_world st1" by (rule Cons.IH)
    also have "st_world st1 = st_world st" using Inr by (rule build_step_dry(2) [OF assms])
    finally show ?thesis .
  qed
qed

text \<open>
  C9. A dry run leaves the world as it was: the output directory is neither removed
  nor created, no output image and no temporary file is written, the cache file is
  not saved; also when the run ends on an exception.
\<close>

theorem dry_run_writes_nothing:
  assumes "dry_run a"
  shows "snd (main E a input w) = w"
proof (cases input)
  case None
  then show ?thesis by (simp add: main_def)
next
  case (Some listing)
  have c: "clean_step a w = w" using assms by (simp add: clean_step_def)
  show ?thesis
  proof (cases "py_get (load_cache (cache_file_of w)) ''_config'' JNull")
    case (Inl e)
    with Some c show ?thesis by (simp add: main_def)
  next
    case cfg: (Inr cc)
    show ?thesis
    proof (cases "collect_candidates E a listing")
      case (Inl e)
      with Some c cfg show ?thesis by (simp add: main_def)
    next
      case en: (Inr cs)
      show ?thesis
      proof (cases "py_get (load_cache (cache_file_of w)) ''files'' (JObj [])")
        case (Inl e)
        with Some c cfg en show ?thesis by (simp add: main_def)
      next
        case fl: (Inr fc)
        let ?st0 = "\<lparr>files_cache = fc, st_world = w, ok = 0, skipped = 0, decisions = []\<rparr>"
        let ?loop = "build_loop E a (effective_mode cc (cfg_fingerprint a) (mode a))
           (cfg_fingerprint a) cs ?st0"
        show ?thesis
        proof (cases ?loop)
          case (Inl x)
          obtain e w' where x: "x = (e, w')" by (cases x)
          from Inl x have "?loop = Inl (e, w')" by simp
          from build_loop_dry_Inl [OF assms this] have "w' = w" by simp
          with Some c cfg en fl Inl x show ?thesis by (simp add: main_def)
        next
          case (Inr st)
          from build_loop_dry_Inr [OF assms Inr] have "st_world st = w" by simp
          with Some c cfg en fl Inr assms show ?thesis by (simp add: main_def Let_def)
        qed
      qed
    qed
  qed
qed

theorem dry_run_writes_nothing_witness:
  "dry_run (demo_options\<lparr>dry_run := True, clean := True\<rparr>) \<and>
   snd (main demo_env (demo_options\<lparr>dry_run := True, clean := True\<rparr>)
          (Some [([''A'', ''a.png''], ''PNG'')]) empty_world) = empty_world"
  using dry_run_writes_nothing [of "demo_options\<lparr>dry_run := True, clean := True\<rparr>" demo_env
      "Some [([''A'', ''a.png''], ''PNG'')]" empty_world]
  by (simp add: demo_options_def)

subsection \<open>The cache across runs\<close>

lemma py_eq_fingerprint [simp]: "py_eq (cfg_fingerprint a) (cfg_fingerprint a)"
  by (simp add: cfg_fingerprint_def)

lemma build_step_files_cache:
  assumes "build_step E a m fp c st = Inr st'"
  shows "(ok st' = ok st \<and> files_cache st' = files_cache st) \<or>
         (ok st' = ok st + 1 \<and>
          py_set (files_cache st) (cache_key (fst c)) (cache_entry (sha1 E (fst (snd c))) fp)
            = Inr (files_cache st'))"
proof -
  obtain rel data out where c: "c = (rel, data, out)" by (cases c)
  show ?thesis
  proof (cases "decide m fp (files_cache st) (cache_key rel) (sha1 E data)
                  (out_exists (st_world st) out)")
    case (Inl e)
    with assms c show ?thesis by (simp add: build_step_def)
  next
    case (Inr d)
    show ?thesis
    proof (cases d)
      case SKIP
      with assms c Inr show ?thesis by (auto simp: build_step_def)
    next
      case (BUILD r)
      show ?thesis
      proof (cases "dry_run a")
        case True
        with assms c Inr BUILD show ?thesis by (auto simp: build_step_def)
      next
        case False
        obtain res w where p: "process_one E (st_world st) rel data out (frame_size a)
            (allow_upscale a) (svg_engine a) = (res, w)" by fastforce
        show ?thesis
        proof (cases res)
          case (Inl e)
          with assms c Inr BUILD False p show ?thesis by (simp add: build_step_def)
        next
          case built: (Inr b)
          show ?thesis
          proof (cases b)
            case True
            with assms c Inr BUILD False p built show ?thesis
              by (auto simp: build_step_def split: sum.splits)
          next
            case False
            with assms c Inr BUILD \<open>\<not> dry_run a\<close> p built show ?thesis
              by (auto simp: build_step_def)
          qed
        qed
      qed
    qed
  qed
qed

lemma py_get_py_set_other:
  assumes "py_set fc k v = Inr fc'" and "k' \<noteq> k"
  shows "py_get fc' k' d = py_get fc k' d"
  using assms by (cases fc) (auto simp: update_conv')

lemma py_get_py_set_same:
  assumes "py_set fc k v = Inr fc'"
  shows "py_get fc' k d = Inr v"
  using assms by (cases fc) (auto simp: update_conv')

lemma build_loop_Cons_Inr:
  assumes "build_loop E a m fp (c # cs) st = Inr st'"
  obtains st1 where "build_step E a m fp c st = Inr st1"
    and "build_loop E a m fp cs st1 = Inr st'"
  using assms by (cases "build_step E a m fp c st") simp_all

lemma build_loop_ok_bounds:
  "build_loop E a m fp cs st = Inr st' \<Longrightarrow> ok st \<le> ok st' \<and> ok st' \<le> ok st + length cs"
proof (induction cs arbitrary: st)
  case Nil
  then show ?case by simp
next
  case (Cons c cs)
  from Cons.prems obtain st1 where
    s1: "build_step E a m fp c st = Inr st1" and l: "build_loop E a m fp cs st1 = Inr st'"
    by (rule build_loop_Cons_Inr)
  from build_step_files_cache [OF s1] have "ok st \<le> ok st1 \<and> ok st1 \<le> ok st + 1"
    by auto
  with Cons.IH [OF l] show ?case by simp
qed

lemma build_loop_other_keys:
  "build_loop E a m fp cs st = Inr st' \<Longrightarrow> k \<notin> (\<lambda>c. cache_key (fst c)) ` set cs
     \<Longrightarrow> py_get (files_cache st') k d = py_get (files_cache st) k d"
proof (induction cs arbitrary: st)
  case Nil
  then show ?case by simp
next
  case (Cons c cs)
  from Cons.prems(1) obtain st1 where
    s1: "build_step E a m fp c st = Inr st1" and l: "build_loop E a m fp cs st1 = Inr st'"
    by (rule build_loop_Cons_Inr)
  from Cons.prems(2) have k: "k \<noteq> cache_key (fst c)"
    and ks: "k \<notin> (\<lambda>c. cache_key (fst c)) ` set cs" by auto
  have "py_get (files_cache st1) k d = py_get (files_cache st) k d"
  proof (cases "files_cache st1 = files_cache st")
    case True
    then show ?thesis by simp
  next
    case False
    with build_step_files_cache [OF s1]
    have "py_set (files_cache st) (cache_key (fst c)) (cache_entry (sha1 E (fst (snd c))) fp)
            = Inr (files_cache st1)" by blast
    then show ?thesis using k by (rule py_get_py_set_other)
  qed
  with Cons.IH [OF l ks] show ?case by simp
qed

lemma build_loop_all_built:
  "build_loop E a m fp cs st = Inr st' \<Longrightarrow> ok st' = ok st + length cs
     \<Longrightarrow> distinct (map (\<lambda>c. cache_key (fst c)) cs)
     \<Longrightarrow> c \<in> set cs
     \<Longrightarrow> py_get (files_cache st') (cache_key (fst c)) JNull
           = Inr (cache_entry (sha1 E (fst (snd c))) fp)"
proof (induction cs arbitrary: st)
  case Nil
  then show ?case by simp
next
  case (Cons c0 cs)
  from Cons.prems(1) obtain st1 where
    s1: "build_step E a m fp c0 st = Inr st1" and l: "build_loop E a m fp cs st1 = Inr st'"
    by (rule build_loop_Cons_Inr)
  note step = build_step_files_cache [OF s1]
  from build_loop_ok_bounds [OF l] Cons.prems(2) step
  have ok1: "ok st1 = ok st + 1" and ok': "ok st' = ok st1 + length cs" by auto
  from Cons.prems(3) have d: "distinct (map (\<lambda>c. cache_key (fst c)) cs)"
    and n: "cache_key (fst c0) \<notin> (\<lambda>c. cache_key (fst c)) ` set cs" by simp_all
  show ?case
  proof (cases "c \<in> set cs")
    case True
    from Cons.IH [OF l ok' d True] show ?thesis .
  next
    case False
    with Cons.prems(4) have eq: "c = c0" by simp
    from step ok1 have
      "py_set (files_cache st) (cache_key (fst c0)) (cache_entry (sha1 E (fst (snd c0))) fp)
         = Inr (files_cache st1)"
      by auto
    then have "py_get (files_cache st1) (cache_key (fst c0)) JNull
        = Inr (cache_entry (sha1 E (fst (snd c0))) fp)"
      by (rule py_get_py_set_same)
    with build_loop_other_keys [OF l n] eq show ?thesis by simp
  qed
qed

lemma decide_cached_current:
  assumes "py_get fc key JNull = Inr (cache_entry h fp)"
      and "py_eq fp fp"
  shows "decide Changed fp fc key h ex = Inr SKIP"
  using assms by (simp add: decide_def cache_entry_def)

lemma build_loop_all_skip:
  assumes "py_eq fp fp"
  shows "(\<And>c. c \<in> set cs \<Longrightarrow> py_get (files_cache st) (cache_key (fst c)) JNull
            = Inr (cache_entry (sha1 E (fst (snd c))) fp))
     \<Longrightarrow> build_loop E a Changed fp cs st
         = Inr (st\<lparr>skipped := skipped st + length cs,
                   decisions := decisions st @ map (\<lambda>c. (fst c, SKIP)) cs\<rparr>)"
proof (induction cs arbitrary: st)
  case Nil
  then show ?case by simp
next
  case (Cons c cs)
  obtain rel data out where c: "c = (rel, data, out)" by (cases c)
  have "py_get (files_cache st) (cache_key (fst c)) JNull
       = Inr (cache_entry (sha1 E (fst (snd c))) fp)"
    by (rule Cons.prems) simp
  with c have "decide Changed fp (files_cache st) (cache_key rel) (sha1 E data)
      (out_exists (st_world st) out) = Inr SKIP"
    by (simp add: decide_cached_current [OF _ assms])
  then have s: "build_step E a Changed fp c st
      = Inr (st\<lparr>skipped := skipped st + 1, decisions := decisions st @ [(fst c, SKIP)]\<rparr>)"
    by (simp add: build_step_def c)
  have "build_loop E a Changed fp cs
          (st\<lparr>skipped := skipped st + 1, decisions := decisions st @ [(fst c, SKIP)]\<rparr>)
        = Inr (st\<lparr>skipped := skipped st + 1, decisions := decisions st @ [(fst c, SKIP)]\<rparr>
                \<lparr>skipped := skipped st + 1 + length cs,
                 decisions := (decisions st @ [(fst c, SKIP)]) @ map (\<lambda>c. (fst c, SKIP)) cs\<rparr>)"
    using Cons.IH [of "st\<lparr>skipped := skipped st + 1, decisions := decisions st @ [(fst c, SKIP)]\<rparr>"]
      Cons.prems by simp
  with s show ?case by simp
qed

text \<open>
  When every candidate has a cache entry with a config snapshot that differs from the
  fingerprint, and no two candidates have the same cache key, every decision of the
  build loop is a build, in every mode.
\<close>

lemma build_step_decisions:
  assumes "decide m fp (files_cache st) (cache_key (fst c)) (sha1 E (fst (snd c)))
             (out_exists (st_world st) (snd (snd c))) = Inr d"
      and "build_step E a m fp c st = Inr st'"
  shows "decisions st' = decisions st @ [(fst c, d)]"
proof -
  obtain rel data out where c: "c = (rel, data, out)" by (cases c)
  show ?thesis
  proof (cases d)
    case SKIP
    with assms c show ?thesis by (auto simp: build_step_def)
  next
    case (BUILD r)
    show ?thesis
    proof (cases "dry_run a")
      case True
      with assms c BUILD show ?thesis by (auto simp: build_step_def)
    next
      case False
      obtain res w where p: "process_one E (st_world st) rel data out (frame_size a)
          (allow_upscale a) (svg_engine a) = (res, w)" by fastforce
      show ?thesis
      proof (cases res)
        case (Inl e)
        with assms c BUILD False p show ?thesis by (simp add: build_step_def)
      next
        case built: (Inr b)
        show ?thesis
        proof (cases b)
          case True
          with assms c BUILD False p built show ?thesis
            by (auto simp: build_step_def split: sum.splits)
        next
          case False
          with assms c BUILD \<open>\<not> dry_run a\<close> p built show ?thesis
            by (auto simp: build_step_def)
        qed
      qed
    qed
  qed
qed

lemma decide_stale:
  assumes "py_get fc key JNull = Inr e" and "e \<noteq> JNull"
      and "py_get e ''cfg'' JNull = Inr c'" and "\<not> py_eq c' fp"
  shows "decide m fp fc key h ex = Inr (BUILD (if m = All then R_all else R_config_changed))"
  using assms by (simp add: decide_def)

lemma build_loop_config_changed:
  "build_loop E a m fp cs st = Inr st' \<Longrightarrow>
   distinct (map (\<lambda>c. cache_key (fst c)) cs) \<Longrightarrow>
   (\<And>c. c \<in> set cs \<Longrightarrow>
      \<exists>e c'. py_get (files_cache st) (cache_key (fst c)) JNull = Inr e \<and> e \<noteq> JNull \<and>
             py_get e ''cfg'' JNull = Inr c' \<and> \<not> py_eq c' fp) \<Longrightarrow>
   decisions st' = decisions st @
     map (\<lambda>c. (fst c, BUILD (if m = All then R_all else R_config_changed))) cs"
proof (induction cs arbitrary: st)
  case Nil
  then show ?case by simp
next
  case (Cons c cs)
  let ?d = "BUILD (if m = All then R_all else R_config_changed)"
  from Cons.prems(1) obtain st1 where
    s1: "build_step E a m fp c st = Inr st1" and l: "build_loop E a m fp cs st1 = Inr st'"
    by (rule build_loop_Cons_Inr)
  from Cons.prems(3) [of c] obtain e c' where
    "py_get (files_cache st) (cache_key (fst c)) JNull = Inr e" "e \<noteq> JNull"
    "py_get e ''cfg'' JNull = Inr c'" "\<not> py_eq c' fp" by auto
  then have "decide m fp (files_cache st) (cache_key (fst c)) (sha1 E (fst (snd c)))
             (out_exists (st_world st) (snd (snd c))) = Inr ?d"
    by (rule decide_stale)
  from build_step_decisions [OF this s1] have d1: "decisions st1 = decisions st @ [(fst c, ?d)]" .
  from Cons.prems(2) have dist: "distinct (map (\<lambda>c. cache_key (fst c)) cs)" by simp
  from Cons.prems(2) have "cache_key (fst c) \<notin> (\<lambda>c. cache_key (fst c)) ` set cs" by simp
  then have n: "cache_key (fst x) \<noteq> cache_key (fst c)" if "x \<in> set cs" for x
    using that by (metis imageI)
  have keep: "py_get (files_cache st1) (cache_key (fst x)) JNull
      = py_get (files_cache st) (cache_key (fst x)) JNull" if "x \<in> set cs" for x
  proof (cases "files_cache st1 = files_cache st")
    case True
    then show ?thesis by simp
  next
    case False
    with build_step_files_cache [OF s1]
    have "py_set (files_cache st) (cache_key (fst c)) (cache_entry (sha1 E (fst (snd c))) fp)
            = Inr (files_cache st1)" by blast
    then show ?thesis using n [OF that] by (rule py_get_py_set_other)
  qed
  have "decisions st' = decisions st1 @ map (\<lambda>c. (fst c, ?d)) cs"
  proof (rule Cons.IH [OF l dist])
    fix x assume x: "x \<in> set cs"
    with Cons.prems(3) [of x] keep [OF x]
    show "\<exists>e c'. py_get (files_cache st1) (cache_key (fst x)) JNull = Inr e \<and> e \<noteq> JNull \<and>
             py_get e ''cfg'' JNull = Inr c' \<and> \<not> py_eq c' fp" by simp
  qed
  with d1 show ?case by simp
qed

text \<open>
  C5 (the code at the failing input). On POSIX the files \<^verbatim>\<open>a\b.png\<close> and
  \<^verbatim>\<open>a/b.png\<close> have the same cache key \<^verbatim>\<open>a/b.png\<close>. A first run with a frame of
  64 by 32 builds both and leaves one cache entry. The next run, in mode \<^verbatim>\<open>changed\<close>
  with a frame of 100 by 50, rebuilds the first file and writes the entry with the new
  config; the second file, of equal contents, then finds that entry and is skipped,
  though its cached config differed from the active one at the start of the run.
\<close>

theorem colliding_keys_skip_after_config_change:
  "cache_key [''a'' @ [backslash] @ ''b.png''] = cache_key [''a'', ''b.png''] \<and>
   fst (main demo_env narrow_options (Some clash_tree) empty_world)
     = Inr \<lparr>total = 2, generated = 2, passed = 0, final_mode = All,
            outcome = [([''a'' @ [backslash] @ ''b.png''], BUILD R_all),
                       ([''a'', ''b.png''], BUILD R_all)]\<rparr> \<and>
   fst (main demo_env (demo_options\<lparr>mode := Changed\<rparr>) (Some clash_tree)
          (snd (main demo_env narrow_options (Some clash_tree) empty_world)))
     = Inr \<lparr>total = 2, generated = 1, passed = 1, final_mode = Changed,
            outcome = [([''a'' @ [backslash] @ ''b.png''], BUILD R_config_changed),
                       ([''a'', ''b.png''], SKIP)]\<rparr>"
  by code_simp

lemma save_step_obj:
  "save_step (JObj kvs) fp fc w = Inr w' \<Longrightarrow>
     cache_file_of w' = Doc (JObj (AList.update ''files'' fc (AList.update ''_config'' fp kvs)))"
  by (auto simp: save_step_def mkdir_parents_def cache_file_of_def save_cache_def Let_def
      split: option.splits)

lemma save_step_succeeds: "\<exists>w'. save_step (JObj kvs) fp fc w = Inr w'"
  by (simp add: save_step_def Let_def)

lemma to_process_of_update [simp]:
  "to_process_of E (a\<lparr>mode := m, clean := c, dry_run := d\<rparr>) listing = to_process_of E a listing"
  by (simp add: to_process_of_def collect_candidates_def)

lemma main_first_run:
  assumes "fst (main E a (Some listing) w) = Inr s" and "\<not> dry_run a"
  obtains kvs fc st where
    "collect_candidates E a listing = Inr (to_process_of E a listing)"
    and "build_loop E a (effective_mode (case map_of kvs ''_config'' of None \<Rightarrow> JNull | Some v \<Rightarrow> v)
         (cfg_fingerprint a) (mode a)) (cfg_fingerprint a) (to_process_of E a listing)
       \<lparr>files_cache = fc, st_world = clean_step a w, ok = 0, skipped = 0, decisions = []\<rparr> = Inr st"
    and "generated s = ok st" and "total s = length (to_process_of E a listing)"
    and "cache_file_of (snd (main E a (Some listing) w))
           = Doc (JObj (AList.update ''files'' (files_cache st)
                         (AList.update ''_config'' (cfg_fingerprint a) kvs)))"
proof -
  let ?w0 = "clean_step a w"
  let ?cache = "load_cache (cache_file_of ?w0)"
  show thesis
  proof (cases "py_get ?cache ''_config'' JNull")
    case (Inl e)
    with assms show ?thesis by (simp add: main_def)
  next
    case cfg: (Inr cc)
    then obtain kvs where kvs: "?cache = JObj kvs" by (cases ?cache) simp_all
    with cfg have cc: "cc = (case map_of kvs ''_config'' of None \<Rightarrow> JNull | Some v \<Rightarrow> v)"
      by simp
    from kvs obtain fc where fl: "py_get ?cache ''files'' (JObj []) = Inr fc" by simp
    show ?thesis
    proof (cases "collect_candidates E a listing")
      case (Inl e)
      with assms cfg show ?thesis by (simp add: main_def)
    next
      case en: (Inr cs)
      then have cs: "to_process_of E a listing = cs" by (simp add: to_process_of_def)
      let ?loop = "build_loop E a (effective_mode cc (cfg_fingerprint a) (mode a))
         (cfg_fingerprint a) cs
         \<lparr>files_cache = fc, st_world = ?w0, ok = 0, skipped = 0, decisions = []\<rparr>"
      show ?thesis
      proof (cases ?loop)
        case (Inl x)
        with assms cfg en fl show ?thesis by (simp add: main_def split: prod.splits)
      next
        case (Inr st)
        from save_step_succeeds obtain w2 where
          sv: "save_step (JObj kvs) (cfg_fingerprint a) (files_cache st) (st_world st) = Inr w2"
          by blast
        from assms cfg en fl Inr sv kvs have
          m: "main E a (Some listing) w
              = (Inr \<lparr>total = length cs, generated = ok st, passed = skipped st,
                      final_mode = effective_mode cc (cfg_fingerprint a) (mode a),
                      outcome = decisions st\<rparr>, w2)"
          by (simp add: main_def Let_def)
        with assms(1) have s: "generated s = ok st" "total s = length (to_process_of E a listing)"
          by (auto simp: cs)
        from m save_step_obj [OF sv] have
          "cache_file_of (snd (main E a (Some listing) w))
             = Doc (JObj (AList.update ''files'' (files_cache st)
                           (AList.update ''_config'' (cfg_fingerprint a) kvs)))" by simp
        with that [OF en [folded cs] Inr [folded cs, unfolded cc]] s show ?thesis by blast
      qed
    qed
  qed
qed

lemma main_all_cached:
  assumes cf: "cache_file_of w = Doc (JObj kvs)"
      and g1: "map_of kvs ''_config'' = Some (cfg_fingerprint a)"
      and g2: "map_of kvs ''files'' = Some fc"
      and en: "collect_candidates E a listing = Inr (to_process_of E a listing)"
      and entries: "\<And>c. c \<in> set (to_process_of E a listing) \<Longrightarrow>
             py_get fc (cache_key (fst c)) JNull
               = Inr (cache_entry (sha1 E (fst (snd c))) (cfg_fingerprint a))"
      and md: "mode a = Changed"
      and noclean: "clean a \<Longrightarrow> dry_run a"
  shows "fst (main E a (Some listing) w)
      = Inr \<lparr>total = length (to_process_of E a listing), generated = 0,
             passed = length (to_process_of E a listing), final_mode = Changed,
             outcome = map (\<lambda>c. (fst c, SKIP)) (to_process_of E a listing)\<rparr>"
proof -
  let ?cs = "to_process_of E a listing"
  let ?fp = "cfg_fingerprint a"
  let ?st0 = "\<lparr>files_cache = fc, st_world = w, ok = 0, skipped = 0, decisions = []\<rparr>"
  have cl: "clean_step a w = w" using noclean by (auto simp: clean_step_def)
  have em: "effective_mode ?fp ?fp (mode a) = Changed" by (simp add: effective_mode_def md)
  have loop2: "build_loop E a Changed ?fp ?cs ?st0
      = Inr (?st0\<lparr>skipped := skipped ?st0 + length ?cs,
                  decisions := decisions ?st0 @ map (\<lambda>c. (fst c, SKIP)) ?cs\<rparr>)"
    by (rule build_loop_all_skip) (simp_all add: entries)
  obtain w3 where sv: "save_step (JObj kvs) ?fp fc w = Inr w3"
    using save_step_succeeds by blast
  show ?thesis
    using cf g1 g2 en em loop2 sv
    by (simp add: main_def cl Let_def)
qed

text \<open>
  C6 (as stated, refuted). A first run builds the two candidates and saves the cache. A
  second run over the same tree with the same config, mode \<^verbatim>\<open>changed\<close> and the
  clean option removes the output directory, the cache file in it, and decides to
  build both candidates as new.
\<close>

theorem second_run_counterexample:
  "fst (main demo_env demo_options (Some demo_tree) empty_world)
     = Inr \<lparr>total = 2, generated = 2, passed = 0, final_mode = All,
            outcome = [([''A'', ''a.png''], BUILD R_all), ([''B'', ''b.svg''], BUILD R_all)]\<rparr> \<and>
   fst (main demo_env (demo_options\<lparr>mode := Changed, clean := True\<rparr>) (Some demo_tree)
          (snd (main demo_env demo_options (Some demo_tree) empty_world)))
     = Inr \<lparr>total = 2, generated = 2, passed = 0, final_mode = Changed,
            outcome = [([''A'', ''a.png''], BUILD R_new), ([''B'', ''b.svg''], BUILD R_new)]\<rparr>"
  by code_simp

text \<open>
  C6 (amended). After a run that is not a dry run, in which every candidate was built
  and the cache saved, a second run over the same tree with the same options but mode
  \<^verbatim>\<open>changed\<close>, which does not clean the output directory (no clean option, or a dry
  run), decides to skip every candidate, provided no two candidates have the same
  cache key.
\<close>

theorem second_run_skips_all:
  assumes run1: "fst (main E a (Some listing) w) = Inr s1"
      and nondry: "\<not> dry_run a"
      and built: "generated s1 = total s1"
      and keys: "distinct (map (\<lambda>c. cache_key (fst c)) (to_process_of E a listing))"
      and noclean: "c2 \<Longrightarrow> d2"
  shows "\<exists>s2. fst (main E (a\<lparr>mode := Changed, clean := c2, dry_run := d2\<rparr>) (Some listing)
                    (snd (main E a (Some listing) w))) = Inr s2 \<and>
              outcome s2 = map (\<lambda>c. (fst c, SKIP)) (to_process_of E a listing) \<and>
              generated s2 = 0 \<and> passed s2 = total s2"
proof -
  let ?a2 = "a\<lparr>mode := Changed, clean := c2, dry_run := d2\<rparr>"
  let ?w1 = "snd (main E a (Some listing) w)"
  let ?cs = "to_process_of E a listing"
  let ?fp = "cfg_fingerprint a"
  from run1 nondry obtain kvs fc st where
    en: "collect_candidates E a listing = Inr ?cs"
    and loop1: "build_loop E a (effective_mode (case map_of kvs ''_config'' of None \<Rightarrow> JNull | Some v \<Rightarrow> v)
         ?fp (mode a)) ?fp ?cs
       \<lparr>files_cache = fc, st_world = clean_step a w, ok = 0, skipped = 0, decisions = []\<rparr> = Inr st"
    and gen: "generated s1 = ok st" and tot: "total s1 = length ?cs"
    and cf: "cache_file_of ?w1
           = Doc (JObj (AList.update ''files'' (files_cache st) (AList.update ''_config'' ?fp kvs)))"
    by (rule main_first_run)
  let ?kvs2 = "AList.update ''files'' (files_cache st) (AList.update ''_config'' ?fp kvs)"
  have fp2: "cfg_fingerprint ?a2 = ?fp" by (simp add: cfg_fingerprint_def)
  have cs2: "to_process_of E ?a2 listing = ?cs" by simp
  have en2: "collect_candidates E ?a2 listing = Inr (to_process_of E ?a2 listing)"
    using en by (simp add: collect_candidates_def)
  have g1: "map_of ?kvs2 ''_config'' = Some (cfg_fingerprint ?a2)"
    by (simp add: update_conv' fp2)
  have g2: "map_of ?kvs2 ''files'' = Some (files_cache st)"
    by (simp add: update_conv')
  from gen tot built have okall: "ok st = ok \<lparr>files_cache = fc, st_world = clean_step a w, ok = 0,
      skipped = 0, decisions = []\<rparr> + length ?cs" by simp
  have entries: "py_get (files_cache st) (cache_key (fst c)) JNull
      = Inr (cache_entry (sha1 E (fst (snd c))) (cfg_fingerprint ?a2))"
    if "c \<in> set (to_process_of E ?a2 listing)" for c
    unfolding fp2 using loop1 okall keys that [unfolded cs2] by (rule build_loop_all_built)
  have "fst (main E ?a2 (Some listing) ?w1)
      = Inr \<lparr>total = length (to_process_of E ?a2 listing), generated = 0,
             passed = length (to_process_of E ?a2 listing), final_mode = Changed,
             outcome = map (\<lambda>c. (fst c, SKIP)) (to_process_of E ?a2 listing)\<rparr>"
    using cf g1 g2 en2 entries
  proof (rule main_all_cached)
    show "mode ?a2 = Changed" by simp
    show "dry_run ?a2" if "clean ?a2" using that noclean by simp
  qed
  then show ?thesis by (simp add: cs2)
qed

lemma demo_keys: "distinct (map (\<lambda>c. cache_key (fst c)) (to_process_of demo_env demo_options demo_tree))"
  by code_simp

lemma demo_run: "fst (main demo_env demo_options (Some demo_tree) empty_world)
   = Inr \<lparr>total = 2, generated = 2, passed = 0, final_mode = All,
          outcome = [([''A'', ''a.png''], BUILD R_all), ([''B'', ''b.svg''], BUILD R_all)]\<rparr>"
  by code_simp

theorem second_run_skips_all_witness:
  "\<exists>s2. fst (main demo_env (demo_options\<lparr>mode := Changed, clean := False, dry_run := False\<rparr>)
              (Some demo_tree) (snd (main demo_env demo_options (Some demo_tree) empty_world)))
           = Inr s2 \<and>
         outcome s2 = [([''A'', ''a.png''], SKIP), ([''B'', ''b.svg''], SKIP)]"
proof -
  have nd: "\<not> dry_run demo_options" by (simp add: demo_options_def)
  have cs: "map (\<lambda>c. (fst c, SKIP)) (to_process_of demo_env demo_options demo_tree)
      = [([''A'', ''a.png''], SKIP), ([''B'', ''b.svg''], SKIP)]" by code_simp
  from second_run_skips_all [OF demo_run nd _ demo_keys, of False False]
  show ?thesis unfolding cs by auto
qed

end
